theory Spec2Isabelle
  imports
    Main
    "HOL-Library.Sublist"
    "HOL-Library.Char_ord"
    "HOL-Library.List_Lexorder"
begin

section \<open>Data model\<close>

text \<open>
  The program (\<^verbatim>\<open>main.go\<close>, and the same functions again in the packages
  \<^verbatim>\<open>backup\<close> and \<^verbatim>\<open>restore\<close>) exports the objects of nine resource kinds of a
  Kubernetes namespace to JSON files and re-creates them in a target namespace.

  The nine kinds are the nine keys of the map \<^verbatim>\<open>restoreFuncs\<close>.
\<close>

datatype ResourceKind =
  PVC | Pod | ReplicaSet | Deployment | ConfigMap | Service | StatefulSet | ServiceAccount | Secret

text \<open>
  The code addresses five fields of an object: \<^verbatim>\<open>ObjectMeta.Name\<close>,
  \<^verbatim>\<open>ObjectMeta.Namespace\<close>, \<^verbatim>\<open>ObjectMeta.ResourceVersion\<close> and, for a service,
  \<^verbatim>\<open>Spec.ClusterIP\<close> and \<^verbatim>\<open>Spec.ClusterIPs\<close> (a slice: \<open>[]\<close> stands for \<^verbatim>\<open>nil\<close>).
  Everything else the object carries is the opaque \<open>Payload\<close>.
\<close>

record Object =
  Name :: string
  Namespace :: string
  ResourceVersion :: string
  ClusterIP :: string
  ClusterIPs :: "string list"
  Payload :: string

text \<open>
  Errors are values. \<open>NotFound\<close> is the error that \<^verbatim>\<open>errors.IsNotFound\<close> recognises,
  \<open>AlreadyExists\<close> the answer of a create for a name that is live, \<open>ApiError\<close> any other
  failure reported by the cluster, \<open>PathError\<close> a failed file operation and \<open>JsonError\<close>
  a failed \<^verbatim>\<open>json.Unmarshal\<close>.
\<close>

datatype error = NotFound | AlreadyExists | ApiError string | PathError string | JsonError

definition IsNotFound :: "error \<Rightarrow> bool" where
  "IsNotFound e = (e = NotFound)"

subsection \<open>Files\<close>

text \<open>
  The content of a file is either text that \<^verbatim>\<open>json.Unmarshal\<close> rejects, or the JSON
  document that \<^verbatim>\<open>json.MarshalIndent\<close> writes for an object of some kind. The kind is
  the shape of the document (which fields it has), not a field of its own.
\<close>

datatype bytes = Malformed | Json ResourceKind Object

text \<open>
  \<^verbatim>\<open>json.MarshalIndent(x, "", "  ")\<close> on one of the nine object types. It has no failing
  input among these types, so the error branch behind it in the source is never taken.
\<close>

definition marshal :: "ResourceKind \<Rightarrow> Object \<Rightarrow> bytes" where
  "marshal k ob = Json k ob"

text \<open>
  \<^verbatim>\<open>json.Unmarshal(data, &x)\<close> with \<open>x\<close> of kind \<open>k\<close>. All nine types keep their metadata
  under the same key, and a key the target type does not have is ignored: decoding the
  document of another kind succeeds, keeps the metadata and leaves the fields that are
  specific to a kind at their zero value.
\<close>

fun unmarshal :: "ResourceKind \<Rightarrow> bytes \<Rightarrow> Object option" where
  "unmarshal k Malformed = None"
| "unmarshal k (Json k' ob) =
     Some (if k' = k then ob else ob\<lparr>ClusterIP := [], ClusterIPs := [], Payload := []\<rparr>)"

text \<open>
  A directory is a list of named entries, each a sub-directory or a regular file; the
  file system maps the path of a directory to its entries. Every path the program uses
  is \<^verbatim>\<open>filepath.Join(backupDir, name)\<close> with \<open>name\<close> free of separators, so a path is
  the pair of the directory and the name.
\<close>

datatype entry = Dir | File bytes

type_synonym directory = "(string \<times> entry) list"

type_synonym filesystem = "string \<Rightarrow> directory option"

fun IsDir :: "entry \<Rightarrow> bool" where
  "IsDir Dir = True"
| "IsDir (File b) = False"

text \<open>\<^verbatim>\<open>ioutil.ReadDir\<close>: the entries of the directory, sorted by file name.\<close>

definition ReadDir :: "filesystem \<Rightarrow> string \<Rightarrow> error + (string \<times> entry) list" where
  "ReadDir fs d = (case fs d of None \<Rightarrow> Inl (PathError d) | Some ents \<Rightarrow> Inr (sort_key fst ents))"

text \<open>\<^verbatim>\<open>ioutil.ReadFile\<close>: fails on a missing path and on a directory.\<close>

definition ReadFile :: "filesystem \<Rightarrow> string \<Rightarrow> string \<Rightarrow> error + bytes" where
  "ReadFile fs d name =
     (case fs d of None \<Rightarrow> Inl (PathError name)
      | Some ents \<Rightarrow>
          (case map_of ents name of
             None \<Rightarrow> Inl (PathError name)
           | Some Dir \<Rightarrow> Inl (PathError name)
           | Some (File b) \<Rightarrow> Inr b))"

text \<open>\<^verbatim>\<open>os.Stat(filename)\<close> returning no error: something exists at the path.\<close>

definition Stat :: "filesystem \<Rightarrow> string \<Rightarrow> string \<Rightarrow> bool" where
  "Stat fs d name = (case fs d of None \<Rightarrow> False | Some ents \<Rightarrow> map_of ents name \<noteq> None)"

fun put :: "string \<Rightarrow> entry \<Rightarrow> directory \<Rightarrow> directory" where
  "put name e [] = [(name, e)]"
| "put name e (p # ps) = (if fst p = name then (name, e) # ps else p # put name e ps)"

text \<open>
  \<^verbatim>\<open>os.WriteFile(filename, data, 0644)\<close>: creates the file or replaces its content;
  fails when the directory is missing or the path is a directory.
\<close>

definition WriteFile :: "filesystem \<Rightarrow> string \<Rightarrow> string \<Rightarrow> bytes \<Rightarrow> error + filesystem" where
  "WriteFile fs d name b =
     (case fs d of None \<Rightarrow> Inl (PathError name)
      | Some ents \<Rightarrow>
          (case map_of ents name of
             Some Dir \<Rightarrow> Inl (PathError name)
           | _ \<Rightarrow> Inr (fs(d \<mapsto> put name (File b) ents))))"

text \<open>
  A file name matches the pattern \<^verbatim>\<open><pre>*<suf>\<close> when it starts with \<open>pre\<close> and what
  follows ends with \<open>suf\<close> (the star matches any run of characters, also the empty one).
\<close>

definition glob_match :: "string \<Rightarrow> string \<Rightarrow> string \<Rightarrow> bool" where
  "glob_match pre suf name = (prefix pre name \<and> suffix suf (drop (length pre) name))"

text \<open>
  \<^verbatim>\<open>filepath.Glob(filepath.Join(d, pre + "*" + suf))\<close>: the matching names of the
  directory, sorted; a directory that cannot be read gives no match and no error. The
  only error of \<^verbatim>\<open>Glob\<close> is a malformed pattern, which none of the patterns here is.
\<close>

definition Glob :: "filesystem \<Rightarrow> string \<Rightarrow> string \<Rightarrow> string \<Rightarrow> string list" where
  "Glob fs d pre suf =
     (case fs d of None \<Rightarrow> [] | Some ents \<Rightarrow> sort (filter (glob_match pre suf) (map fst ents)))"

subsection \<open>The cluster\<close>

text \<open>
  The calls the program makes on the clientset, as they are recorded in the order they
  are issued.
\<close>

datatype call =
  ListCall ResourceKind string
| GetCall ResourceKind string string
| CreateCall ResourceKind string Object

text \<open>
  The state the program runs in: the live objects of the cluster, each with its kind and
  the namespace it lives in; the trace of the calls issued so far; the file system.
\<close>

record world =
  live :: "(ResourceKind \<times> string \<times> Object) list"
  calls :: "call list"
  files :: filesystem

text \<open>
  The clientset may fail a call for reasons of its own (connection, admission). Such a
  failure is an \<open>ApiError\<close> with the message given here; \<open>None\<close> means the call is
  answered from the live objects.
\<close>

record clientset =
  list_err :: "ResourceKind \<Rightarrow> string \<Rightarrow> string option"
  get_err :: "ResourceKind \<Rightarrow> string \<Rightarrow> string \<Rightarrow> string option"
  create_err :: "ResourceKind \<Rightarrow> string \<Rightarrow> Object \<Rightarrow> string option"

definition items :: "ResourceKind \<Rightarrow> string \<Rightarrow> world \<Rightarrow> Object list" where
  "items k ns w =
     map (\<lambda>e. snd (snd e)) (filter (\<lambda>e. fst e = k \<and> fst (snd e) = ns) (live w))"

definition record_call :: "call \<Rightarrow> world \<Rightarrow> world" where
  "record_call c w = w\<lparr>calls := calls w @ [c]\<rparr>"

text \<open>\<^verbatim>\<open>clientset.<Kind>(namespace).List(ctx, metav1.ListOptions{})\<close>\<close>

definition api_List ::
  "clientset \<Rightarrow> ResourceKind \<Rightarrow> string \<Rightarrow> world \<Rightarrow> (error + Object list) \<times> world" where
  "api_List cs k ns w =
     (case list_err cs k ns of
        Some m \<Rightarrow> (Inl (ApiError m), record_call (ListCall k ns) w)
      | None \<Rightarrow> (Inr (items k ns w), record_call (ListCall k ns) w))"

text \<open>\<^verbatim>\<open>clientset.<Kind>(namespace).Get(ctx, name, metav1.GetOptions{})\<close>\<close>

definition api_Get ::
  "clientset \<Rightarrow> ResourceKind \<Rightarrow> string \<Rightarrow> string \<Rightarrow> world \<Rightarrow> (error + Object) \<times> world" where
  "api_Get cs k ns n w =
     (case get_err cs k ns n of
        Some m \<Rightarrow> (Inl (ApiError m), record_call (GetCall k ns n) w)
      | None \<Rightarrow>
          (case find (\<lambda>x. Name x = n) (items k ns w) of
             None \<Rightarrow> (Inl NotFound, record_call (GetCall k ns n) w)
           | Some x \<Rightarrow> (Inr x, record_call (GetCall k ns n) w)))"

text \<open>
  \<^verbatim>\<open>clientset.<Kind>(namespace).Create(ctx, &x, metav1.CreateOptions{})\<close>: the only call
  that adds a live object. The object is kept as it was passed, under the namespace of
  the request.
\<close>

definition api_Create ::
  "clientset \<Rightarrow> ResourceKind \<Rightarrow> string \<Rightarrow> Object \<Rightarrow> world \<Rightarrow> (error + Object) \<times> world" where
  "api_Create cs k ns ob w =
     (case create_err cs k ns ob of
        Some m \<Rightarrow> (Inl (ApiError m), record_call (CreateCall k ns ob) w)
      | None \<Rightarrow>
          (if Name ob \<in> set (map Name (items k ns w))
           then (Inl AlreadyExists, record_call (CreateCall k ns ob) w)
           else (Inr ob, (record_call (CreateCall k ns ob) w)\<lparr>live := live w @ [(k, ns, ob)]\<rparr>)))"

section \<open>Loops\<close>

text \<open>
  Every loop of the program is a \<^verbatim>\<open>for _, x := range xs\<close> whose body either returns
  an error, which ends the function, or goes on with the next element
  (\<^verbatim>\<open>continue\<close>, or the end of the body). The body is a function from the element and
  the state to the error, if any, and the new state.
\<close>

fun for_each ::
  "('a \<Rightarrow> world \<Rightarrow> error option \<times> world) \<Rightarrow> 'a list \<Rightarrow> world \<Rightarrow> error option \<times> world" where
  "for_each body [] w = (None, w)"
| "for_each body (x # xs) w =
     (case body x w of
        (Some e, w') \<Rightarrow> (Some e, w')
      | (None, w') \<Rightarrow> for_each body xs w')"

section \<open>Export\<close>

text \<open>
  The body shared by the exporters: serialise the object and write it to its file. A
  failed write ends the exporter with its error.
\<close>

definition write_object ::
  "ResourceKind \<Rightarrow> string \<Rightarrow> string \<Rightarrow> Object \<Rightarrow> world \<Rightarrow> error option \<times> world" where
  "write_object k backupDir filename x w =
     (case WriteFile (files w) backupDir filename (marshal k x) of
        Inl e \<Rightarrow> (Some e, w)
      | Inr fs' \<Rightarrow> (None, w\<lparr>files := fs'\<rparr>))"

text \<open>
  The body of the three exporters that look at the destination first
  (\<^verbatim>\<open>if _, err := os.Stat(filename); err == nil { continue }\<close>) and clear the
  namespace and the resource version of the copy they write.
\<close>

definition write_unless_present ::
  "ResourceKind \<Rightarrow> string \<Rightarrow> string \<Rightarrow> Object \<Rightarrow> world \<Rightarrow> error option \<times> world" where
  "write_unless_present k backupDir filename x w =
     (if Stat (files w) backupDir filename then (None, w)
      else write_object k backupDir filename (x\<lparr>Namespace := [], ResourceVersion := []\<rparr>) w)"

definition BackupPVCs :: "clientset \<Rightarrow> string \<Rightarrow> string \<Rightarrow> world \<Rightarrow> error option \<times> world" where
  "BackupPVCs cs namespace backupDir w =
     (case api_List cs PVC namespace w of
        (Inl e, w') \<Rightarrow> (Some e, w')
      | (Inr pvcList, w') \<Rightarrow>
          for_each (\<lambda>pvc. write_object PVC backupDir (Name pvc @ ''.json'') pvc) pvcList w')"

definition BackupPods :: "clientset \<Rightarrow> string \<Rightarrow> string \<Rightarrow> world \<Rightarrow> error option \<times> world" where
  "BackupPods cs namespace backupDir w =
     (case api_List cs Pod namespace w of
        (Inl e, w') \<Rightarrow> (Some e, w')
      | (Inr podList, w') \<Rightarrow>
          for_each (\<lambda>pod. write_object Pod backupDir (''pod-'' @ Name pod @ ''.json'') pod)
            podList w')"

definition BackupSecrets :: "clientset \<Rightarrow> string \<Rightarrow> string \<Rightarrow> world \<Rightarrow> error option \<times> world" where
  "BackupSecrets cs namespace backupDir w =
     (case api_List cs Secret namespace w of
        (Inl e, w') \<Rightarrow> (Some e, w')
      | (Inr secretsList, w') \<Rightarrow>
          for_each
            (\<lambda>secret. write_object Secret backupDir (''secret-'' @ Name secret @ ''.json'') secret)
            secretsList w')"

definition BackupReplicaSets ::
  "clientset \<Rightarrow> string \<Rightarrow> string \<Rightarrow> world \<Rightarrow> error option \<times> world" where
  "BackupReplicaSets cs namespace backupDir w =
     (case api_List cs ReplicaSet namespace w of
        (Inl e, w') \<Rightarrow> (Some e, w')
      | (Inr rsList, w') \<Rightarrow>
          for_each
            (\<lambda>rs. write_object ReplicaSet backupDir (''replicaset-'' @ Name rs @ ''.json'') rs)
            rsList w')"

definition BackupDeployments ::
  "clientset \<Rightarrow> string \<Rightarrow> string \<Rightarrow> world \<Rightarrow> error option \<times> world" where
  "BackupDeployments cs namespace backupDir w =
     (case api_List cs Deployment namespace w of
        (Inl e, w') \<Rightarrow> (Some e, w')
      | (Inr deploymentList, w') \<Rightarrow>
          for_each
            (\<lambda>deployment.
               write_object Deployment backupDir
                 (''deployment-'' @ Name deployment @ ''.json'') deployment)
            deploymentList w')"

text \<open>
  The config-map exporter passes over the object named \<^verbatim>\<open>kube-root-ca.crt\<close> before
  anything else.
\<close>

definition BackupConfigMaps ::
  "clientset \<Rightarrow> string \<Rightarrow> string \<Rightarrow> world \<Rightarrow> error option \<times> world" where
  "BackupConfigMaps cs namespace backupDir w =
     (case api_List cs ConfigMap namespace w of
        (Inl e, w') \<Rightarrow> (Some e, w')
      | (Inr cmList, w') \<Rightarrow>
          for_each
            (\<lambda>cm w''.
               if Name cm = ''kube-root-ca.crt'' then (None, w'')
               else write_unless_present ConfigMap backupDir
                      (''configmap-'' @ Name cm @ ''.json'') cm w'')
            cmList w')"

definition BackupStatefulSet ::
  "clientset \<Rightarrow> string \<Rightarrow> string \<Rightarrow> world \<Rightarrow> error option \<times> world" where
  "BackupStatefulSet cs namespace backupDir w =
     (case api_List cs StatefulSet namespace w of
        (Inl e, w') \<Rightarrow> (Some e, w')
      | (Inr statefulSetList, w') \<Rightarrow>
          for_each
            (\<lambda>statefulSet.
               write_unless_present StatefulSet backupDir
                 (''statefulset-'' @ Name statefulSet @ ''.json'') statefulSet)
            statefulSetList w')"

definition BackupServices ::
  "clientset \<Rightarrow> string \<Rightarrow> string \<Rightarrow> world \<Rightarrow> error option \<times> world" where
  "BackupServices cs namespace backupDir w =
     (case api_List cs Service namespace w of
        (Inl e, w') \<Rightarrow> (Some e, w')
      | (Inr serviceList, w') \<Rightarrow>
          for_each
            (\<lambda>service.
               write_unless_present Service backupDir
                 (''service-'' @ Name service @ ''.json'') service)
            serviceList w')"

definition BackupServiceAccounts ::
  "clientset \<Rightarrow> string \<Rightarrow> string \<Rightarrow> world \<Rightarrow> error option \<times> world" where
  "BackupServiceAccounts cs namespace backupDir w =
     (case api_List cs ServiceAccount namespace w of
        (Inl e, w') \<Rightarrow> (Some e, w')
      | (Inr saList, w') \<Rightarrow>
          for_each
            (\<lambda>sa. write_object ServiceAccount backupDir
                    (''serviceaccount-'' @ Name sa @ ''.json'') sa)
            saList w')"

text \<open>
  The exporter of each kind, as \<^verbatim>\<open>performBackup\<close> pairs them, and the exports of
  \<^verbatim>\<open>performBackup\<close> in the order it runs them, ending at the first error.
\<close>

fun backupFunc ::
  "ResourceKind \<Rightarrow> clientset \<Rightarrow> string \<Rightarrow> string \<Rightarrow> world \<Rightarrow> error option \<times> world" where
  "backupFunc PVC = BackupPVCs"
| "backupFunc Pod = BackupPods"
| "backupFunc ReplicaSet = BackupReplicaSets"
| "backupFunc Deployment = BackupDeployments"
| "backupFunc ConfigMap = BackupConfigMaps"
| "backupFunc StatefulSet = BackupStatefulSet"
| "backupFunc Service = BackupServices"
| "backupFunc ServiceAccount = BackupServiceAccounts"
| "backupFunc Secret = BackupSecrets"

definition performBackup ::
  "clientset \<Rightarrow> string \<Rightarrow> string \<Rightarrow> world \<Rightarrow> error option \<times> world" where
  "performBackup cs namespace backupDir w =
     for_each (\<lambda>k. backupFunc k cs namespace backupDir)
       [PVC, Pod, ReplicaSet, Deployment, ConfigMap, StatefulSet, Service, ServiceAccount, Secret]
       w"

section \<open>Import\<close>

text \<open>
  What eight of the nine importers do to the decoded object:
  \<^verbatim>\<open>x.Namespace = namespace; x.ResourceVersion = ""\<close>.
\<close>

definition set_target :: "string \<Rightarrow> Object \<Rightarrow> Object" where
  "set_target namespace x = x\<lparr>Namespace := namespace, ResourceVersion := []\<rparr>"

text \<open>
  The service importer also does
  \<^verbatim>\<open>service.Spec.ClusterIP = ""; service.Spec.ClusterIPs = nil\<close>.
\<close>

definition set_target_service :: "string \<Rightarrow> Object \<Rightarrow> Object" where
  "set_target_service namespace x =
     x\<lparr>Namespace := namespace, ResourceVersion := [], ClusterIP := [], ClusterIPs := []\<rparr>"

text \<open>
  The body of the six importers that list the live objects once, before the loop, and
  look for the name in that listing: read the file, decode it, apply \<open>norm\<close>, go on
  to the next file when the name is in the listing, create the object otherwise.
\<close>

definition restore_listed ::
  "clientset \<Rightarrow> ResourceKind \<Rightarrow> (Object \<Rightarrow> Object) \<Rightarrow> string \<Rightarrow> string \<Rightarrow> Object list \<Rightarrow>
   string \<Rightarrow> world \<Rightarrow> error option \<times> world" where
  "restore_listed cs k norm namespace backupDir existing f w =
     (case ReadFile (files w) backupDir f of
        Inl e \<Rightarrow> (Some e, w)
      | Inr data \<Rightarrow>
          (case unmarshal k data of
             None \<Rightarrow> (Some JsonError, w)
           | Some x \<Rightarrow>
               (if Name (norm x) \<in> set (map Name existing) then (None, w)
                else (case api_Create cs k namespace (norm x) w of
                        (Inl e, w') \<Rightarrow> (Some e, w')
                      | (Inr created, w') \<Rightarrow> (None, w')))))"

definition restorePVC ::
  "string \<Rightarrow> string \<Rightarrow> string \<Rightarrow> clientset \<Rightarrow> world \<Rightarrow> error option \<times> world" where
  "restorePVC file namespace backupDir cs w =
     (case api_List cs PVC namespace w of
        (Inl e, w') \<Rightarrow> (Some e, w')
      | (Inr existingPVCs, w') \<Rightarrow>
          for_each (restore_listed cs PVC (set_target namespace) namespace backupDir existingPVCs)
            (Glob (files w') backupDir ''pvc-'' ''.json'') w')"

definition restorePod ::
  "string \<Rightarrow> string \<Rightarrow> string \<Rightarrow> clientset \<Rightarrow> world \<Rightarrow> error option \<times> world" where
  "restorePod file namespace backupDir cs w =
     (case api_List cs Pod namespace w of
        (Inl e, w') \<Rightarrow> (Some e, w')
      | (Inr existingPods, w') \<Rightarrow>
          for_each (restore_listed cs Pod (set_target namespace) namespace backupDir existingPods)
            (Glob (files w') backupDir ''pod-'' ''.json'') w')"

definition restoreReplicaSet ::
  "string \<Rightarrow> string \<Rightarrow> string \<Rightarrow> clientset \<Rightarrow> world \<Rightarrow> error option \<times> world" where
  "restoreReplicaSet file namespace backupDir cs w =
     (case api_List cs ReplicaSet namespace w of
        (Inl e, w') \<Rightarrow> (Some e, w')
      | (Inr existingReplicaSets, w') \<Rightarrow>
          for_each
            (restore_listed cs ReplicaSet (set_target namespace) namespace backupDir
               existingReplicaSets)
            (Glob (files w') backupDir ''replicaset-'' ''.json'') w')"

definition restoreDeployment ::
  "string \<Rightarrow> string \<Rightarrow> string \<Rightarrow> clientset \<Rightarrow> world \<Rightarrow> error option \<times> world" where
  "restoreDeployment file namespace backupDir cs w =
     (case api_List cs Deployment namespace w of
        (Inl e, w') \<Rightarrow> (Some e, w')
      | (Inr existingDeployments, w') \<Rightarrow>
          for_each
            (restore_listed cs Deployment (set_target namespace) namespace backupDir
               existingDeployments)
            (Glob (files w') backupDir ''deployment-'' ''.json'') w')"

text \<open>
  The config-map importer has no assignment between the decoding and the look-up: the
  object goes to the create call as it was decoded.
\<close>

definition restoreConfigMap ::
  "string \<Rightarrow> string \<Rightarrow> string \<Rightarrow> clientset \<Rightarrow> world \<Rightarrow> error option \<times> world" where
  "restoreConfigMap file namespace backupDir cs w =
     (case api_List cs ConfigMap namespace w of
        (Inl e, w') \<Rightarrow> (Some e, w')
      | (Inr existingCMs, w') \<Rightarrow>
          for_each (restore_listed cs ConfigMap (\<lambda>cm. cm) namespace backupDir existingCMs)
            (Glob (files w') backupDir ''configmap-'' ''.json'') w')"

definition restoreStatefulSet ::
  "string \<Rightarrow> string \<Rightarrow> string \<Rightarrow> clientset \<Rightarrow> world \<Rightarrow> error option \<times> world" where
  "restoreStatefulSet file namespace backupDir cs w =
     (case api_List cs StatefulSet namespace w of
        (Inl e, w') \<Rightarrow> (Some e, w')
      | (Inr existingStatefulSets, w') \<Rightarrow>
          for_each
            (restore_listed cs StatefulSet (set_target namespace) namespace backupDir
               existingStatefulSets)
            (Glob (files w') backupDir ''statefulset-'' ''.json'') w')"

text \<open>
  The body of the three importers that ask the cluster for the name, file by file: read
  the file, decode it, apply \<open>pre\<close>, get the object by name; a successful get goes
  on to the next file, an error other than not-found ends the importer, and not-found
  leads to the create call on the object after \<open>post\<close>.
\<close>

definition restore_got ::
  "clientset \<Rightarrow> ResourceKind \<Rightarrow> (Object \<Rightarrow> Object) \<Rightarrow> (Object \<Rightarrow> Object) \<Rightarrow> string \<Rightarrow> string \<Rightarrow>
   string \<Rightarrow> world \<Rightarrow> error option \<times> world" where
  "restore_got cs k pre post namespace backupDir f w =
     (case ReadFile (files w) backupDir f of
        Inl e \<Rightarrow> (Some e, w)
      | Inr data \<Rightarrow>
          (case unmarshal k data of
             None \<Rightarrow> (Some JsonError, w)
           | Some x \<Rightarrow>
               (case api_Get cs k namespace (Name (pre x)) w of
                  (Inr found, w') \<Rightarrow> (None, w')
                | (Inl e, w') \<Rightarrow>
                    (if \<not> IsNotFound e then (Some e, w')
                     else (case api_Create cs k namespace (post (pre x)) w' of
                             (Inl e', w'') \<Rightarrow> (Some e', w'')
                           | (Inr created, w'') \<Rightarrow> (None, w''))))))"

definition restoreServices ::
  "string \<Rightarrow> string \<Rightarrow> string \<Rightarrow> clientset \<Rightarrow> world \<Rightarrow> error option \<times> world" where
  "restoreServices file namespace backupDir cs w =
     (case ReadDir (files w) backupDir of
        Inl e \<Rightarrow> (Some e, w)
      | Inr ents \<Rightarrow>
          for_each
            (\<lambda>ent w'.
               if \<not> IsDir (snd ent) \<and> prefix ''service-'' (fst ent)
               then restore_got cs Service (set_target_service namespace) (\<lambda>x. x)
                      namespace backupDir (fst ent) w'
               else (None, w'))
            ents w)"

text \<open>
  The service-account importer takes every entry of the directory, and sets the
  namespace and the resource version after the get.
\<close>

definition restoreServiceAccounts ::
  "string \<Rightarrow> string \<Rightarrow> string \<Rightarrow> clientset \<Rightarrow> world \<Rightarrow> error option \<times> world" where
  "restoreServiceAccounts file namespace backupDir cs w =
     (case ReadDir (files w) backupDir of
        Inl e \<Rightarrow> (Some e, w)
      | Inr ents \<Rightarrow>
          for_each
            (\<lambda>ent. restore_got cs ServiceAccount (\<lambda>x. x) (set_target namespace)
                      namespace backupDir (fst ent))
            ents w)"

definition restoreSecrets ::
  "string \<Rightarrow> string \<Rightarrow> string \<Rightarrow> clientset \<Rightarrow> world \<Rightarrow> error option \<times> world" where
  "restoreSecrets file namespace backupDir cs w =
     (case ReadDir (files w) backupDir of
        Inl e \<Rightarrow> (Some e, w)
      | Inr ents \<Rightarrow>
          for_each
            (\<lambda>ent w'.
               if \<not> IsDir (snd ent) \<and> prefix ''secret-'' (fst ent)
               then restore_got cs Secret (set_target namespace) (\<lambda>x. x)
                      namespace backupDir (fst ent) w'
               else (None, w'))
            ents w)"

subsection \<open>The orchestration\<close>

text \<open>The map \<^verbatim>\<open>restoreFuncs\<close>: its keys and its values.\<close>

fun resourceType :: "ResourceKind \<Rightarrow> string" where
  "resourceType PVC = ''pvc''"
| "resourceType Pod = ''pod''"
| "resourceType ReplicaSet = ''replicaset''"
| "resourceType Deployment = ''deployment''"
| "resourceType ConfigMap = ''configmap''"
| "resourceType Service = ''service''"
| "resourceType StatefulSet = ''statefulset''"
| "resourceType ServiceAccount = ''serviceaccount''"
| "resourceType Secret = ''secret''"

fun restoreFuncs ::
  "ResourceKind \<Rightarrow> string \<Rightarrow> string \<Rightarrow> string \<Rightarrow> clientset \<Rightarrow> world \<Rightarrow> error option \<times> world" where
  "restoreFuncs PVC = restorePVC"
| "restoreFuncs Pod = restorePod"
| "restoreFuncs ReplicaSet = restoreReplicaSet"
| "restoreFuncs Deployment = restoreDeployment"
| "restoreFuncs ConfigMap = restoreConfigMap"
| "restoreFuncs Service = restoreServices"
| "restoreFuncs StatefulSet = restoreStatefulSet"
| "restoreFuncs ServiceAccount = restoreServiceAccounts"
| "restoreFuncs Secret = restoreSecrets"

text \<open>
  \<^verbatim>\<open>restoreResources\<close> ranges over the map, and Go leaves the order of that open:
  \<open>order\<close> is the order in which one run meets the keys. For each key it globs
  \<^verbatim>\<open><key>-*.json\<close> and calls the key's function once for every match.
\<close>

definition restoreResources ::
  "ResourceKind list \<Rightarrow> string \<Rightarrow> string \<Rightarrow> clientset \<Rightarrow> world \<Rightarrow> error option \<times> world" where
  "restoreResources order backupDir namespace cs w =
     for_each
       (\<lambda>k w'.
          for_each (\<lambda>file. restoreFuncs k file namespace backupDir cs)
            (Glob (files w') backupDir (resourceType k @ ''-'') ''.json'') w')
       order w"

section \<open>Notions for the statements\<close>

text \<open>The calls issued between an earlier state and a later one.\<close>

definition issued :: "world \<Rightarrow> world \<Rightarrow> call list" where
  "issued w w' = drop (length (calls w)) (calls w')"

fun is_create :: "call \<Rightarrow> bool" where
  "is_create (CreateCall k ns x) = True"
| "is_create (ListCall k ns) = False"
| "is_create (GetCall k ns n) = False"

text \<open>The objects handed to the create calls of a trace, in order.\<close>

fun created :: "call list \<Rightarrow> Object list" where
  "created [] = []"
| "created (CreateCall k ns x # cs) = x # created cs"
| "created (ListCall k ns # cs) = created cs"
| "created (GetCall k ns n # cs) = created cs"

text \<open>The names that are live for a kind in a namespace.\<close>

definition live_names :: "ResourceKind \<Rightarrow> string \<Rightarrow> world \<Rightarrow> string set" where
  "live_names k ns w = set (map Name (items k ns w))"

text \<open>
  The importers fall into two shapes. Six list the live objects and then go through
  the files of a glob; three read the directory and go through its entries, with a test
  on the entry in two of them.
\<close>

fun by_get :: "ResourceKind \<Rightarrow> bool" where
  "by_get Service = True"
| "by_get ServiceAccount = True"
| "by_get Secret = True"
| "by_get PVC = False"
| "by_get Pod = False"
| "by_get ReplicaSet = False"
| "by_get Deployment = False"
| "by_get ConfigMap = False"
| "by_get StatefulSet = False"

fun candidate :: "ResourceKind \<Rightarrow> string \<times> entry \<Rightarrow> bool" where
  "candidate Service ent = (\<not> IsDir (snd ent) \<and> prefix ''service-'' (fst ent))"
| "candidate Secret ent = (\<not> IsDir (snd ent) \<and> prefix ''secret-'' (fst ent))"
| "candidate k ent = True"

fun norm_pre :: "ResourceKind \<Rightarrow> string \<Rightarrow> Object \<Rightarrow> Object" where
  "norm_pre ConfigMap ns = (\<lambda>x. x)"
| "norm_pre ServiceAccount ns = (\<lambda>x. x)"
| "norm_pre Service ns = set_target_service ns"
| "norm_pre k ns = set_target ns"

fun norm_post :: "ResourceKind \<Rightarrow> string \<Rightarrow> Object \<Rightarrow> Object" where
  "norm_post ServiceAccount ns = set_target ns"
| "norm_post k ns = (\<lambda>x. x)"

definition import_listed ::
  "ResourceKind \<Rightarrow> string \<Rightarrow> string \<Rightarrow> clientset \<Rightarrow> world \<Rightarrow> error option \<times> world" where
  "import_listed k ns d cs w =
     (case api_List cs k ns w of
        (Inl e, w') \<Rightarrow> (Some e, w')
      | (Inr existing, w') \<Rightarrow>
          for_each (restore_listed cs k (norm_pre k ns) ns d existing)
            (Glob (files w') d (resourceType k @ ''-'') ''.json'') w')"

definition got_body ::
  "ResourceKind \<Rightarrow> string \<Rightarrow> string \<Rightarrow> clientset \<Rightarrow> string \<times> entry \<Rightarrow> world \<Rightarrow>
   error option \<times> world" where
  "got_body k ns d cs ent w =
     (if candidate k ent
      then restore_got cs k (norm_pre k ns) (norm_post k ns) ns d (fst ent) w
      else (None, w))"

definition import_got ::
  "ResourceKind \<Rightarrow> string \<Rightarrow> string \<Rightarrow> clientset \<Rightarrow> world \<Rightarrow> error option \<times> world" where
  "import_got k ns d cs w =
     (case ReadDir (files w) d of
        Inl e \<Rightarrow> (Some e, w)
      | Inr ents \<Rightarrow> for_each (got_body k ns d cs) ents w)"

text \<open>What an importer hands to the create call for a decoded object.\<close>

definition import_norm :: "ResourceKind \<Rightarrow> string \<Rightarrow> Object \<Rightarrow> Object" where
  "import_norm k ns x = norm_post k ns (norm_pre k ns x)"

text \<open>
  A later state \<open>w'\<close> of a run that started in \<open>w\<close>: the files are the same, and the
  live objects and the trace have only grown at the end.
\<close>

definition grows :: "world \<Rightarrow> world \<Rightarrow> bool" where
  "grows w w' = (files w' = files w \<and> prefix (live w) (live w') \<and> prefix (calls w) (calls w'))"

text \<open>The same with no live object added and no create call issued.\<close>

definition quiet :: "world \<Rightarrow> world \<Rightarrow> bool" where
  "quiet w w' =
     (files w' = files w \<and> live w' = live w \<and> prefix (calls w) (calls w') \<and>
      filter is_create (issued w w') = [])"

text \<open>
  A call of the importer of kind \<open>k\<close> into the namespace \<open>ns\<close>: a list or a get of
  that kind in that namespace, or a create of that kind in that namespace whose object
  satisfies \<open>P\<close>.
\<close>

fun call_of :: "ResourceKind \<Rightarrow> string \<Rightarrow> (Object \<Rightarrow> bool) \<Rightarrow> call \<Rightarrow> bool" where
  "call_of k ns P (ListCall k' ns') = (k' = k \<and> ns' = ns)"
| "call_of k ns P (GetCall k' ns' n) = (k' = k \<and> ns' = ns)"
| "call_of k ns P (CreateCall k' ns' x) = (k' = k \<and> ns' = ns \<and> P x)"

text \<open>The objects that the files \<open>F\<close> of a directory decode to, for a kind.\<close>

definition decoded :: "ResourceKind \<Rightarrow> filesystem \<Rightarrow> string \<Rightarrow> string set \<Rightarrow> Object set" where
  "decoded k fs d F = {x. \<exists>f\<in>F. \<exists>b. ReadFile fs d f = Inr b \<and> unmarshal k b = Some x}"

text \<open>The files an importer goes through: the matches of its glob, or the entries of the
  directory that pass its test.\<close>

definition import_files :: "ResourceKind \<Rightarrow> filesystem \<Rightarrow> string \<Rightarrow> string set" where
  "import_files k fs d =
     (if by_get k
      then (case ReadDir fs d of
              Inl e \<Rightarrow> {}
            | Inr ents \<Rightarrow> fst ` {ent \<in> set ents. candidate k ent})
      else set (Glob fs d (resourceType k @ ''-'') ''.json''))"

definition emits ::
  "ResourceKind \<Rightarrow> string \<Rightarrow> string \<Rightarrow> string set \<Rightarrow> world \<Rightarrow> world \<Rightarrow> bool" where
  "emits k ns d F w w' =
     (grows w w' \<and>
      list_all (call_of k ns (\<lambda>y. y \<in> import_norm k ns ` decoded k (files w) d F))
        (issued w w'))"

text \<open>What a call adds to the live objects when it succeeds, and what a run has added.\<close>

fun adds :: "call \<Rightarrow> (ResourceKind \<times> string \<times> Object) list" where
  "adds (CreateCall k ns x) = [(k, ns, x)]"
| "adds (ListCall k ns) = []"
| "adds (GetCall k ns n) = []"

definition added :: "world \<Rightarrow> world \<Rightarrow> (ResourceKind \<times> string \<times> Object) list" where
  "added w w' = drop (length (live w)) (live w')"

text \<open>What is found at a path.\<close>

definition entry_at :: "filesystem \<Rightarrow> string \<Rightarrow> string \<Rightarrow> entry option" where
  "entry_at fs d name = (case fs d of None \<Rightarrow> None | Some ents \<Rightarrow> map_of ents name)"

text \<open>
  A file is settled for an importer when it can be read and decoded and the name it
  carries is live (and, for an importer that gets by name, the get of that name is
  answered). An importer is settled when every file it goes through is; a kind is done
  when the orchestration finds no file for it or its importer is settled.
\<close>

definition settled_file ::
  "clientset \<Rightarrow> ResourceKind \<Rightarrow> string \<Rightarrow> string \<Rightarrow> world \<Rightarrow> string \<Rightarrow> bool" where
  "settled_file cs k ns d w f =
     (\<exists>b x. ReadFile (files w) d f = Inr b \<and> unmarshal k b = Some x \<and>
            (by_get k \<longrightarrow> get_err cs k ns (Name x) = None) \<and> Name x \<in> live_names k ns w)"

definition settled :: "clientset \<Rightarrow> ResourceKind \<Rightarrow> string \<Rightarrow> string \<Rightarrow> world \<Rightarrow> bool" where
  "settled cs k ns d w =
     (if by_get k
      then (\<exists>ents. ReadDir (files w) d = Inr ents \<and>
                   (\<forall>ent\<in>set ents. candidate k ent \<longrightarrow> settled_file cs k ns d w (fst ent)))
      else list_err cs k ns = None \<and>
           (\<forall>f\<in>set (Glob (files w) d (resourceType k @ ''-'') ''.json'').
              settled_file cs k ns d w f))"

definition kind_done :: "clientset \<Rightarrow> ResourceKind \<Rightarrow> string \<Rightarrow> string \<Rightarrow> world \<Rightarrow> bool" where
  "kind_done cs k ns d w =
     (Glob (files w) d (resourceType k @ ''-'') ''.json'' = [] \<or> settled cs k ns d w)"

section \<open>Example states\<close>

text \<open>A clientset that answers every call from the live objects.\<close>

definition no_faults :: clientset where
  "no_faults =
     \<lparr>list_err = (\<lambda>k ns. None), get_err = (\<lambda>k ns n. None), create_err = (\<lambda>k ns x. None)\<rparr>"

text \<open>A cluster that refuses every pod it is asked to create.\<close>

definition rejecting_pods :: clientset where
  "rejecting_pods =
     \<lparr>list_err = (\<lambda>k ns. None), get_err = (\<lambda>k ns n. None),
      create_err = (\<lambda>k ns x. if k = Pod then Some ''rejected'' else None)\<rparr>"

definition pod_p1 :: Object where
  "pod_p1 = \<lparr>Name = ''p1'', Namespace = ''prod'', ResourceVersion = ''41'',
             ClusterIP = [], ClusterIPs = [], Payload = ''nginx''\<rparr>"

definition cm_app :: Object where
  "cm_app = \<lparr>Name = ''app-config'', Namespace = [], ResourceVersion = [],
             ClusterIP = [], ClusterIPs = [], Payload = ''k=v''\<rparr>"

definition secret_s1 :: Object where
  "secret_s1 = \<lparr>Name = ''s1'', Namespace = ''prod'', ResourceVersion = ''7'',
             ClusterIP = [], ClusterIPs = [], Payload = ''pw''\<rparr>"

text \<open>
  A backup directory as the exporters leave it for a namespace with the pod \<open>p1\<close> and
  the config-map \<open>app-config\<close>, and an empty target namespace.
\<close>

definition backup_b1 :: world where
  "backup_b1 =
     \<lparr>live = [], calls = [],
      files = [''b1'' \<mapsto> [(''pod-p1.json'', File (Json Pod pod_p1)),
                         (''configmap-app-config.json'', File (Json ConfigMap cm_app))]]\<rparr>"

text \<open>The same for a namespace with the pod \<open>p1\<close> and the secret \<open>s1\<close>.\<close>

definition backup_b2 :: world where
  "backup_b2 =
     \<lparr>live = [], calls = [],
      files = [''b2'' \<mapsto> [(''pod-p1.json'', File (Json Pod pod_p1)),
                         (''secret-s1.json'', File (Json Secret secret_s1))]]\<rparr>"

text \<open>Two of the orders in which a run may meet the nine keys of the map.\<close>

definition order_a :: "ResourceKind list" where
  "order_a =
     [PVC, Pod, ReplicaSet, Deployment, ConfigMap, Service, StatefulSet, ServiceAccount, Secret]"

definition order_b :: "ResourceKind list" where
  "order_b =
     [Secret, ServiceAccount, StatefulSet, Service, ConfigMap, Deployment, ReplicaSet, Pod, PVC]"

text \<open>
  Relations between an earlier and a later state: every live object added is the object
  of a create call issued in between; the live objects are the same and no create call
  was issued.
\<close>

definition accounted :: "world \<Rightarrow> world \<Rightarrow> bool" where
  "accounted w w' =
     (grows w w' \<and> set (added w w') \<subseteq> set (concat (map adds (issued w w'))))"

definition reads_only :: "world \<Rightarrow> world \<Rightarrow> bool" where
  "reads_only w w' =
     (live w' = live w \<and> prefix (calls w) (calls w') \<and> filter is_create (issued w w') = [])"

text \<open>Files that did not come from the config-map exporter, a service as it was exported.\<close>

definition cm_stale :: Object where
  "cm_stale = \<lparr>Name = ''settings'', Namespace = ''prod'', ResourceVersion = ''41'',
              ClusterIP = [], ClusterIPs = [], Payload = ''k=v''\<rparr>"

definition backup_b3 :: world where
  "backup_b3 =
     \<lparr>live = [], calls = [],
      files = [''b3'' \<mapsto> [(''configmap-settings.json'', File (Json ConfigMap cm_stale))]]\<rparr>"

definition pvc_odd :: Object where
  "pvc_odd = \<lparr>Name = ''configmap-data'', Namespace = ''prod'', ResourceVersion = ''52'',
              ClusterIP = [], ClusterIPs = [], Payload = ''1Gi''\<rparr>"

definition cluster_c1 :: world where
  "cluster_c1 = \<lparr>live = [(PVC, ''prod'', pvc_odd)], calls = [], files = [''b8'' \<mapsto> []]\<rparr>"



section \<open>Lemmas\<close>

subsection \<open>The two shapes of importer\<close>

lemma got_body_Service:
  "(\<lambda>ent w'. if \<not> IsDir (snd ent) \<and> prefix ''service-'' (fst ent)
      then restore_got cs Service (set_target_service ns) (\<lambda>x. x) ns d (fst ent) w'
      else (None, w')) = got_body Service ns d cs"
  by (intro ext) (simp add: got_body_def)

lemma got_body_Secret:
  "(\<lambda>ent w'. if \<not> IsDir (snd ent) \<and> prefix ''secret-'' (fst ent)
      then restore_got cs Secret (set_target ns) (\<lambda>x. x) ns d (fst ent) w'
      else (None, w')) = got_body Secret ns d cs"
  by (intro ext) (simp add: got_body_def)

lemma got_body_ServiceAccount:
  "(\<lambda>ent. restore_got cs ServiceAccount (\<lambda>x. x) (set_target ns) ns d (fst ent))
     = got_body ServiceAccount ns d cs"
  by (intro ext) (simp add: got_body_def)

lemma restoreFuncs_by_get:
  "by_get k \<Longrightarrow> restoreFuncs k file ns d cs w = import_got k ns d cs w"
  by (cases k; simp)
     (simp_all only: restoreServices_def restoreSecrets_def
        restoreServiceAccounts_def import_got_def got_body_Service got_body_Secret
        got_body_ServiceAccount)

lemma restoreFuncs_listed:
  "\<not> by_get k \<Longrightarrow> restoreFuncs k file ns d cs w = import_listed k ns d cs w"
  by (cases k; simp)
     (simp_all only: restorePVC_def restorePod_def
        restoreReplicaSet_def restoreDeployment_def restoreConfigMap_def restoreStatefulSet_def
        import_listed_def norm_pre.simps resourceType.simps append.simps)

lemma for_each_rel:
  assumes "for_each body xs w = (r, w')"
    and "\<And>x u r u'. x \<in> set xs \<Longrightarrow> body x u = (r, u') \<Longrightarrow> R u u'"
    and "\<And>u. R u u"
    and "\<And>a b c. R a b \<Longrightarrow> R b c \<Longrightarrow> R a c"
  shows "R w w'"
  using assms(1,2)
proof (induction xs arbitrary: w)
  case Nil
  then show ?case using assms(3) by simp
next
  case (Cons x xs)
  obtain r1 w1 where b: "body x w = (r1, w1)" by (cases "body x w")
  have s: "R w w1" using Cons.prems(2)[of x w r1 w1] b by simp
  show ?case
  proof (cases r1)
    case None
    then have "for_each body xs w1 = (r, w')" using Cons.prems(1) b by simp
    then have "R w1 w'" using Cons.IH[of w1] Cons.prems(2) by (meson list.set_intros(2))
    then show ?thesis using s assms(4) by blast
  next
    case (Some e)
    then show ?thesis using Cons.prems(1) b s by simp
  qed
qed

subsection \<open>Traces\<close>

lemma issued_self: "issued w w = []"
  by (simp add: issued_def)

lemma calls_issued: "prefix (calls w) (calls w') \<Longrightarrow> calls w' = calls w @ issued w w'"
  by (auto simp: issued_def prefix_def)

lemma issued_trans:
  "prefix (calls a) (calls b) \<Longrightarrow> prefix (calls b) (calls c) \<Longrightarrow>
   issued a c = issued a b @ issued b c"
  by (auto simp: issued_def prefix_def)

lemma issued_record_call: "issued w (record_call c w) = [c]"
  by (simp add: issued_def record_call_def)

lemma grows_refl: "grows w w"
  by (simp add: grows_def)

lemma grows_trans: "grows a b \<Longrightarrow> grows b c \<Longrightarrow> grows a c"
  by (auto simp: grows_def)

lemma quiet_refl: "quiet w w"
  by (simp add: quiet_def issued_self)

lemma quiet_trans:
  assumes "quiet a b" and "quiet b c"
  shows "quiet a c"
proof -
  have p: "prefix (calls a) (calls b)" "prefix (calls b) (calls c)"
    using assms by (simp_all add: quiet_def)
  have "issued a c = issued a b @ issued b c" using p by (rule issued_trans)
  moreover have "prefix (calls a) (calls c)" using p by (rule prefix_order.trans)
  ultimately show ?thesis using assms by (simp add: quiet_def)
qed

lemma quiet_grows: "quiet w w' \<Longrightarrow> grows w w'"
  by (simp add: quiet_def grows_def)

lemma quiet_record_call: "\<not> is_create c \<Longrightarrow> quiet w (record_call c w)"
  by (simp add: quiet_def issued_record_call) (simp add: record_call_def)

lemma grows_record_call: "grows w (record_call c w)"
  by (simp add: grows_def record_call_def)

lemma items_grows: "grows w w' \<Longrightarrow> prefix (items k ns w) (items k ns w')"
  by (auto simp: grows_def items_def prefix_def)

lemma live_names_grows: "grows w w' \<Longrightarrow> live_names k ns w \<subseteq> live_names k ns w'"
  using items_grows[of w w' k ns] by (auto simp: live_names_def prefix_def)

lemma items_quiet: "quiet w w' \<Longrightarrow> items k ns w' = items k ns w"
  by (simp add: quiet_def items_def)

subsection \<open>The calls on the cluster\<close>

lemma api_List_world: "snd (api_List cs k ns w) = record_call (ListCall k ns) w"
  by (simp add: api_List_def split: option.splits)

lemma api_List_result:
  "fst (api_List cs k ns w) =
     (case list_err cs k ns of Some m \<Rightarrow> Inl (ApiError m) | None \<Rightarrow> Inr (items k ns w))"
  by (simp add: api_List_def split: option.splits)

lemma api_Get_world: "snd (api_Get cs k ns n w) = record_call (GetCall k ns n) w"
  by (simp add: api_Get_def split: option.splits)

lemma api_Get_cases:
  "api_Get cs k ns n w = (r, w') \<Longrightarrow>
     w' = record_call (GetCall k ns n) w \<and>
     (case r of
        Inr x \<Rightarrow> get_err cs k ns n = None \<and> n \<in> live_names k ns w
      | Inl e \<Rightarrow> (e = NotFound \<and> get_err cs k ns n = None \<and> n \<notin> live_names k ns w)
                 \<or> (\<exists>m. e = ApiError m \<and> get_err cs k ns n = Some m))"
  by (auto simp: api_Get_def live_names_def find_None_iff find_Some_iff
      split: option.splits)

lemma api_Create_cases:
  "api_Create cs k ns x w = (r, w') \<Longrightarrow>
     (case r of
        Inr y \<Rightarrow> y = x \<and> create_err cs k ns x = None \<and> Name x \<notin> live_names k ns w \<and>
                 w' = (record_call (CreateCall k ns x) w)\<lparr>live := live w @ [(k, ns, x)]\<rparr>
      | Inl e \<Rightarrow> w' = record_call (CreateCall k ns x) w)"
  by (auto simp: api_Create_def live_names_def split: option.splits if_splits)

lemma api_Create_grows: "api_Create cs k ns x w = (r, w') \<Longrightarrow> grows w w'"
  by (drule api_Create_cases) (auto simp: grows_def record_call_def split: sum.splits)

lemma api_Create_issued:
  "api_Create cs k ns x w = (r, w') \<Longrightarrow> issued w w' = [CreateCall k ns x]"
  by (drule api_Create_cases) (auto simp: issued_def record_call_def split: sum.splits)

lemma api_Create_live_names:
  "api_Create cs k ns x w = (Inr y, w') \<Longrightarrow> Name x \<in> live_names k ns w'"
  by (drule api_Create_cases) (auto simp: live_names_def items_def record_call_def)


subsection \<open>Importers only add\<close>

lemma restore_listed_grows:
  "restore_listed cs k norm ns d existing f w = (r, w') \<Longrightarrow> grows w w'"
  by (auto simp: restore_listed_def grows_refl split: sum.splits option.splits if_splits prod.splits
      dest: api_Create_grows)

lemma api_Get_grows: "api_Get cs k ns n w = (r, w') \<Longrightarrow> grows w w'"
  using api_Get_world[of cs k ns n w] by (simp add: grows_record_call)

lemma api_List_grows: "api_List cs k ns w = (r, w') \<Longrightarrow> grows w w'"
  using api_List_world[of cs k ns w] by (simp add: grows_record_call)

lemma restore_got_grows:
  "restore_got cs k pre post ns d f w = (r, w') \<Longrightarrow> grows w w'"
  by (auto simp: restore_got_def grows_refl
      split: sum.splits option.splits prod.splits if_splits
      dest!: api_Create_grows api_Get_grows elim: grows_trans)

lemma import_listed_grows:
  assumes "import_listed k ns d cs w = (r, w')"
  shows "grows w w'"
proof (cases "api_List cs k ns w")
  case (Pair res w1)
  have g: "grows w w1" using Pair by (rule api_List_grows)
  show ?thesis
  proof (cases res)
    case (Inl e)
    then show ?thesis using assms Pair g by (simp add: import_listed_def)
  next
    case (Inr existing)
    then have "for_each (restore_listed cs k (norm_pre k ns) ns d existing)
                 (Glob (files w1) d (resourceType k @ ''-'') ''.json'') w1 = (r, w')"
      using assms Pair by (simp add: import_listed_def)
    then have "grows w1 w'"
      by (rule for_each_rel) (auto intro: restore_listed_grows grows_refl elim: grows_trans)
    then show ?thesis using g grows_trans by blast
  qed
qed

lemma got_body_grows: "got_body k ns d cs ent w = (r, w') \<Longrightarrow> grows w w'"
  by (auto simp: got_body_def grows_refl split: if_splits dest: restore_got_grows)

lemma import_got_grows:
  assumes "import_got k ns d cs w = (r, w')"
  shows "grows w w'"
proof (cases "ReadDir (files w) d")
  case (Inl e)
  then show ?thesis using assms by (simp add: import_got_def grows_refl)
next
  case (Inr ents)
  then have "for_each (got_body k ns d cs) ents w = (r, w')"
    using assms by (simp add: import_got_def)
  then show ?thesis
    by (rule for_each_rel) (auto intro: got_body_grows grows_refl elim: grows_trans)
qed

lemma restoreFuncs_grows: "restoreFuncs k file ns d cs w = (r, w') \<Longrightarrow> grows w w'"
  by (cases "by_get k")
     (auto simp: restoreFuncs_by_get restoreFuncs_listed
        dest: import_got_grows import_listed_grows)

lemma restore_files_grows:
  "for_each (\<lambda>file. restoreFuncs k file ns d cs) fl w = (r, w') \<Longrightarrow> grows w w'"
  by (erule for_each_rel) (auto intro: restoreFuncs_grows grows_refl elim: grows_trans)

lemma restoreResources_grows:
  "restoreResources order d ns cs w = (r, w') \<Longrightarrow> grows w w'"
  unfolding restoreResources_def
  by (erule for_each_rel) (auto intro: restore_files_grows grows_refl elim: grows_trans)


subsection \<open>What the importers issue\<close>

lemma emits_refl: "emits k ns d F w w"
  by (simp add: emits_def grows_refl issued_self)

lemma emits_trans:
  assumes "emits k ns d F a b" and "emits k ns d F b c"
  shows "emits k ns d F a c"
proof -
  have g: "grows a b" "grows b c" using assms by (simp_all add: emits_def)
  then have "issued a c = issued a b @ issued b c"
    by (simp add: grows_def issued_trans)
  moreover have "files b = files a" using g by (simp add: grows_def)
  ultimately show ?thesis using assms g grows_trans[of a b c] by (simp add: emits_def)
qed

lemma emits_grows: "emits k ns d F w w' \<Longrightarrow> grows w w'"
  by (simp add: emits_def)

lemma api_List_emits: "api_List cs k ns w = (r, w') \<Longrightarrow> emits k ns d F w w'"
  using api_List_world[of cs k ns w]
  by (auto simp: emits_def grows_record_call issued_record_call)

lemma api_Get_emits: "api_Get cs k ns n w = (r, w') \<Longrightarrow> emits k ns d F w w'"
  using api_Get_world[of cs k ns n w]
  by (auto simp: emits_def grows_record_call issued_record_call)

lemma api_Create_emits:
  "api_Create cs k ns y w = (r, w') \<Longrightarrow> y \<in> import_norm k ns ` decoded k (files w) d F \<Longrightarrow>
   emits k ns d F w w'"
  by (simp add: emits_def api_Create_grows api_Create_issued)

lemma decodedI:
  "f \<in> F \<Longrightarrow> ReadFile fs d f = Inr b \<Longrightarrow> unmarshal k b = Some x \<Longrightarrow> x \<in> decoded k fs d F"
  by (auto simp: decoded_def)

lemma import_norm_listed: "\<not> by_get k \<Longrightarrow> import_norm k ns x = norm_pre k ns x"
  by (cases k) (simp_all add: import_norm_def)

lemma restore_listed_emits:
  assumes "restore_listed cs k (norm_pre k ns) ns d existing f w = (r, w')" and "\<not> by_get k"
    and "f \<in> F"
  shows "emits k ns d F w w'"
  using assms
  by (auto simp: restore_listed_def emits_refl import_norm_listed[symmetric]
      split: sum.splits option.splits if_splits prod.splits
      intro!: api_Create_emits imageI decodedI)

lemma restore_got_emits:
  assumes "restore_got cs k (norm_pre k ns) (norm_post k ns) ns d f w = (r, w')" and "f \<in> F"
  shows "emits k ns d F w w'"
proof (cases "ReadFile (files w) d f")
  case (Inl e)
  then show ?thesis using assms by (simp add: restore_got_def emits_refl)
next
  case (Inr b)
  show ?thesis
  proof (cases "unmarshal k b")
    case None
    then show ?thesis using assms Inr by (simp add: restore_got_def emits_refl)
  next
    case (Some x)
    obtain g w1 where get: "api_Get cs k ns (Name (norm_pre k ns x)) w = (g, w1)"
      by (cases "api_Get cs k ns (Name (norm_pre k ns x)) w")
    have e1: "emits k ns d F w w1" using get by (rule api_Get_emits)
    have f1: "files w1 = files w" using e1 by (simp add: emits_def grows_def)
    have x: "import_norm k ns x \<in> import_norm k ns ` decoded k (files w1) d F"
      using Inr Some f1 assms(2) by (auto intro!: imageI decodedI)
    show ?thesis
    proof (cases g)
      case (Inr found)
      then show ?thesis using assms \<open>ReadFile (files w) d f = Inr b\<close> Some get e1
        by (simp add: restore_got_def)
    next
      case (Inl e)
      show ?thesis
      proof (cases "IsNotFound e")
        case False
        then show ?thesis using assms \<open>ReadFile (files w) d f = Inr b\<close> Some get e1 Inl
          by (simp add: restore_got_def)
      next
        case True
        obtain c w2 where cr: "api_Create cs k ns (import_norm k ns x) w1 = (c, w2)"
          by (cases "api_Create cs k ns (import_norm k ns x) w1")
        have e2: "emits k ns d F w1 w2" using cr x by (rule api_Create_emits)
        have "w' = w2"
          using assms \<open>ReadFile (files w) d f = Inr b\<close> Some get Inl True cr
          by (auto simp: restore_got_def import_norm_def split: sum.splits)
        then show ?thesis using e1 e2 emits_trans by blast
      qed
    qed
  qed
qed

lemma got_body_emits:
  "got_body k ns d cs ent w = (r, w') \<Longrightarrow> (candidate k ent \<Longrightarrow> fst ent \<in> F) \<Longrightarrow>
   emits k ns d F w w'"
  by (auto simp: got_body_def emits_refl split: if_splits dest: restore_got_emits)

lemma import_listed_emits:
  assumes "import_listed k ns d cs w = (r, w')" and "\<not> by_get k"
  shows "emits k ns d (import_files k (files w) d) w w'"
proof (cases "api_List cs k ns w")
  case (Pair res w1)
  let ?F = "import_files k (files w) d"
  have g: "emits k ns d ?F w w1" using Pair by (rule api_List_emits)
  have fs: "files w1 = files w" using g by (simp add: emits_def grows_def)
  show ?thesis
  proof (cases res)
    case (Inl e)
    then show ?thesis using assms Pair g by (simp add: import_listed_def)
  next
    case (Inr existing)
    then have "for_each (restore_listed cs k (norm_pre k ns) ns d existing)
                 (Glob (files w1) d (resourceType k @ ''-'') ''.json'') w1 = (r, w')"
      using assms Pair by (simp add: import_listed_def)
    then have "emits k ns d ?F w1 w'"
    proof (rule for_each_rel)
      fix f u r' u'
      assume m: "f \<in> set (Glob (files w1) d (resourceType k @ ''-'') ''.json'')"
        and st: "restore_listed cs k (norm_pre k ns) ns d existing f u = (r', u')"
      have "f \<in> ?F" using m assms(2) fs by (simp add: import_files_def)
      then show "emits k ns d ?F u u'"
        using restore_listed_emits[OF st assms(2)] by blast
    qed (auto intro: emits_refl elim: emits_trans)
    then show ?thesis using g emits_trans by blast
  qed
qed

lemma import_got_emits:
  assumes "import_got k ns d cs w = (r, w')" and "by_get k"
  shows "emits k ns d (import_files k (files w) d) w w'"
proof (cases "ReadDir (files w) d")
  case (Inl e)
  then show ?thesis using assms by (simp add: import_got_def emits_refl)
next
  case (Inr ents)
  then have "for_each (got_body k ns d cs) ents w = (r, w')"
    using assms by (simp add: import_got_def)
  then show ?thesis
  proof (rule for_each_rel[where R = "emits k ns d (import_files k (files w) d)"])
    fix ent u r' u'
    assume e: "ent \<in> set ents" and st: "got_body k ns d cs ent u = (r', u')"
    have "candidate k ent \<Longrightarrow> fst ent \<in> import_files k (files w) d"
      using e assms(2) Inr by (auto simp: import_files_def)
    then show "emits k ns d (import_files k (files w) d) u u'"
      using got_body_emits[OF st] by blast
  qed (auto intro: emits_refl elim: emits_trans)
qed

lemma restoreFuncs_emits:
  "restoreFuncs k file ns d cs w = (r, w') \<Longrightarrow> emits k ns d (import_files k (files w) d) w w'"
  by (cases "by_get k")
     (auto simp: restoreFuncs_by_get restoreFuncs_listed
        dest: import_got_emits import_listed_emits)

lemma emits_create:
  assumes "emits k ns d F w w'" and "CreateCall k' ns' y \<in> set (issued w w')"
  shows "k' = k \<and> ns' = ns \<and>
         (\<exists>f\<in>F. \<exists>b x. ReadFile (files w) d f = Inr b \<and> unmarshal k b = Some x \<and>
            y = import_norm k ns x)"
proof -
  have "call_of k ns (\<lambda>y. y \<in> import_norm k ns ` decoded k (files w) d F) (CreateCall k' ns' y)"
    using assms by (auto simp: emits_def list_all_iff)
  then show ?thesis by (auto simp: decoded_def)
qed

subsection \<open>A second run finds everything in place\<close>

lemma for_each_post:
  assumes "for_each body xs w = (None, w')"
    and "I w"
    and "\<And>x u r u'. x \<in> set xs \<Longrightarrow> I u \<Longrightarrow> body x u = (r, u') \<Longrightarrow> I u'"
    and "\<And>x u u'. x \<in> set xs \<Longrightarrow> I u \<Longrightarrow> body x u = (None, u') \<Longrightarrow> Q x u'"
    and "\<And>x y u r u'. y \<in> set xs \<Longrightarrow> Q x u \<Longrightarrow> body y u = (r, u') \<Longrightarrow> Q x u'"
  shows "\<forall>x\<in>set xs. Q x w'"
  using assms
proof (induction xs arbitrary: w)
  case Nil
  then show ?case by simp
next
  case (Cons x xs)
  obtain r1 w1 where b: "body x w = (r1, w1)" by (cases "body x w")
  have r1: "r1 = None" using Cons.prems(1) b by (cases r1) simp_all
  have run: "for_each body xs w1 = (None, w')" using Cons.prems(1) b r1 by simp
  have i1: "I w1" using Cons.prems(3)[of x w r1 w1] Cons.prems(2) b by simp
  have q1: "Q x w1" using Cons.prems(4)[of x w w1] Cons.prems(2) b r1 by simp
  have rest: "\<forall>y\<in>set xs. Q y w'"
  proof (rule Cons.IH[OF run i1])
    fix y u r u'
    assume "y \<in> set xs" and "I u" and "body y u = (r, u')"
    then show "I u'" using Cons.prems(3)[of y u r u'] by simp
  next
    fix y u u'
    assume "y \<in> set xs" and "I u" and "body y u = (None, u')"
    then show "Q y u'" using Cons.prems(4)[of y u u'] by simp
  next
    fix z y u r u'
    assume "y \<in> set xs" and "Q z u" and "body y u = (r, u')"
    then show "Q z u'" using Cons.prems(5)[of y z u r u'] by simp
  qed
  have keep: "\<And>z u r u'. for_each body xs u = (r, u') \<Longrightarrow> Q z u \<Longrightarrow> Q z u'"
  proof -
    fix z u r u'
    assume f: "for_each body xs u = (r, u')" and "Q z u"
    have "Q z u \<longrightarrow> Q z u'"
    proof (rule for_each_rel[OF f, where R = "\<lambda>a b. Q z a \<longrightarrow> Q z b"])
      fix y a r' b
      assume "y \<in> set xs" and "body y a = (r', b)"
      then show "Q z a \<longrightarrow> Q z b" using Cons.prems(5)[of y z a r' b] by simp
    qed simp_all
    then show "Q z u'" using \<open>Q z u\<close> by simp
  qed
  have "Q x w'" using keep[OF run q1] .
  then show ?case using rest by simp
qed

lemma for_each_quiet:
  assumes "\<And>x u. x \<in> set xs \<Longrightarrow> quiet w u \<Longrightarrow> \<exists>u'. body x u = (None, u') \<and> quiet u u'"
  shows "\<exists>w'. for_each body xs w = (None, w') \<and> quiet w w'"
  using assms
proof (induction xs arbitrary: w)
  case Nil
  then show ?case by (simp add: quiet_refl)
next
  case (Cons x xs)
  obtain w1 where b: "body x w = (None, w1)" and q: "quiet w w1"
    using Cons.prems[of x w] by (auto simp: quiet_refl)
  have "\<exists>w'. for_each body xs w1 = (None, w') \<and> quiet w1 w'"
  proof (rule Cons.IH)
    fix y u
    assume "y \<in> set xs" and "quiet w1 u"
    then show "\<exists>u'. body y u = (None, u') \<and> quiet u u'"
      using Cons.prems[of y u] q quiet_trans by auto
  qed
  then show ?case using b q quiet_trans by auto
qed

lemma name_norm_pre: "Name (norm_pre k ns x) = Name x"
  by (cases k) (simp_all add: set_target_def set_target_service_def)

lemma name_norm_post: "Name (norm_post k ns x) = Name x"
  by (cases k) (simp_all add: set_target_def)


lemma settled_file_grows:
  "settled_file cs k ns d w f \<Longrightarrow> grows w w' \<Longrightarrow> settled_file cs k ns d w' f"
  using live_names_grows[of w w' k ns] by (auto simp: settled_file_def grows_def)

lemma settled_grows: "settled cs k ns d w \<Longrightarrow> grows w w' \<Longrightarrow> settled cs k ns d w'"
  using settled_file_grows[of cs k ns d w _ w']
  by (auto simp: settled_def grows_def split: if_splits)

lemma kind_done_grows: "kind_done cs k ns d w \<Longrightarrow> grows w w' \<Longrightarrow> kind_done cs k ns d w'"
  using settled_grows[of cs k ns d w w'] by (auto simp: kind_done_def grows_def)

lemma restore_listed_settles:
  assumes "restore_listed cs k (norm_pre k ns) ns d existing f w = (None, w')"
    and "set (map Name existing) \<subseteq> live_names k ns w" and "\<not> by_get k"
  shows "settled_file cs k ns d w' f"
proof -
  have g: "grows w w'" using assms(1) by (rule restore_listed_grows)
  then have fs: "files w' = files w" by (simp add: grows_def)
  obtain b x where rd: "ReadFile (files w) d f = Inr b" and um: "unmarshal k b = Some x"
    using assms(1) by (auto simp: restore_listed_def split: sum.splits option.splits)
  have "Name x \<in> live_names k ns w'"
  proof (cases "Name x \<in> set (map Name existing)")
    case True
    then show ?thesis using assms(2) live_names_grows[OF g, of k ns] by auto
  next
    case False
    then obtain y where "api_Create cs k ns (norm_pre k ns x) w = (Inr y, w')"
      using assms(1) rd um
      by (auto simp: restore_listed_def name_norm_pre split: sum.splits prod.splits)
    then show ?thesis using api_Create_live_names[of cs k ns "norm_pre k ns x" w y w']
      by (simp add: name_norm_pre)
  qed
  then show ?thesis using rd um fs assms(3) by (auto simp: settled_file_def)
qed


lemma import_listed_settles:
  assumes "import_listed k ns d cs w = (None, w')" and "\<not> by_get k"
  shows "settled cs k ns d w'"
proof -
  let ?w1 = "record_call (ListCall k ns) w"
  let ?fl = "Glob (files ?w1) d (resourceType k @ ''-'') ''.json''"
  have le: "list_err cs k ns = None"
    using assms(1) by (auto simp: import_listed_def api_List_def split: option.splits)
  then have al: "api_List cs k ns w = (Inr (items k ns w), ?w1)"
    by (simp add: api_List_def)
  have run: "for_each (restore_listed cs k (norm_pre k ns) ns d (items k ns w)) ?fl ?w1 = (None, w')"
    using assms(1) al by (simp add: import_listed_def)
  have g: "grows ?w1 w'"
    using run by (rule for_each_rel) (auto intro: restore_listed_grows grows_refl elim: grows_trans)
  have "\<forall>f\<in>set ?fl. settled_file cs k ns d w' f"
  proof (rule for_each_post[OF run, where I = "\<lambda>u. grows ?w1 u"])
    show "grows ?w1 ?w1" by (rule grows_refl)
  next
    fix f u r u'
    assume "grows ?w1 u" and "restore_listed cs k (norm_pre k ns) ns d (items k ns w) f u = (r, u')"
    then show "grows ?w1 u'" using restore_listed_grows grows_trans by blast
  next
    fix f u u'
    assume gu: "grows ?w1 u"
      and st: "restore_listed cs k (norm_pre k ns) ns d (items k ns w) f u = (None, u')"
    have "grows w u" using gu grows_record_call grows_trans by blast
    then have "set (map Name (items k ns w)) \<subseteq> live_names k ns u"
      using live_names_grows[of w u k ns] by (simp add: live_names_def)
    then show "settled_file cs k ns d u' f"
      using restore_listed_settles[OF st _ assms(2)] by simp
  next
    fix f g u r u'
    assume "settled_file cs k ns d u f"
      and "restore_listed cs k (norm_pre k ns) ns d (items k ns w) g u = (r, u')"
    then show "settled_file cs k ns d u' f"
      using restore_listed_grows settled_file_grows by blast
  qed
  moreover have "files w' = files w" using g by (simp add: grows_def record_call_def)
  ultimately show ?thesis using le assms(2) by (simp add: settled_def record_call_def)
qed

lemma restore_got_settles:
  assumes "restore_got cs k (norm_pre k ns) (norm_post k ns) ns d f w = (None, w')"
  shows "settled_file cs k ns d w' f"
proof -
  have g: "grows w w'" using assms by (rule restore_got_grows)
  then have fs: "files w' = files w" by (simp add: grows_def)
  obtain b x where rd: "ReadFile (files w) d f = Inr b" and um: "unmarshal k b = Some x"
    using assms by (auto simp: restore_got_def split: sum.splits option.splits)
  obtain res w1 where get: "api_Get cs k ns (Name x) w = (res, w1)"
    by (cases "api_Get cs k ns (Name x) w")
  note gc = api_Get_cases[OF get]
  have "get_err cs k ns (Name x) = None \<and> Name x \<in> live_names k ns w'"
  proof (cases res)
    case (Inr found)
    then show ?thesis using gc live_names_grows[OF g, of k ns] by auto
  next
    case (Inl e)
    then have nf: "e = NotFound" and ge: "get_err cs k ns (Name x) = None"
      using assms rd um get gc
      by (auto simp: restore_got_def name_norm_pre IsNotFound_def split: if_splits)
    obtain y where "api_Create cs k ns (norm_post k ns (norm_pre k ns x)) w1 = (Inr y, w')"
      using assms rd um get Inl nf
      by (auto simp: restore_got_def name_norm_pre IsNotFound_def split: sum.splits prod.splits)
    then have "Name x \<in> live_names k ns w'"
      using api_Create_live_names[of cs k ns "norm_post k ns (norm_pre k ns x)" w1 y w']
      by (simp add: name_norm_pre name_norm_post)
    then show ?thesis using ge by simp
  qed
  then show ?thesis using rd um fs by (auto simp: settled_file_def)
qed

lemma import_got_settles:
  assumes "import_got k ns d cs w = (None, w')" and "by_get k"
  shows "settled cs k ns d w'"
proof -
  obtain ents where rd: "ReadDir (files w) d = Inr ents"
    using assms(1) by (auto simp: import_got_def split: sum.splits)
  have run: "for_each (got_body k ns d cs) ents w = (None, w')"
    using assms(1) rd by (simp add: import_got_def)
  have g: "grows w w'"
    using run by (rule for_each_rel) (auto intro: got_body_grows grows_refl elim: grows_trans)
  have "\<forall>ent\<in>set ents. candidate k ent \<longrightarrow> settled_file cs k ns d w' (fst ent)"
  proof (rule for_each_post[OF run, where I = "\<lambda>u. True"])
    fix ent u u'
    assume "got_body k ns d cs ent u = (None, u')"
    then show "candidate k ent \<longrightarrow> settled_file cs k ns d u' (fst ent)"
      by (auto simp: got_body_def dest: restore_got_settles)
  next
    fix ent e u r u'
    assume "candidate k ent \<longrightarrow> settled_file cs k ns d u (fst ent)"
      and "got_body k ns d cs e u = (r, u')"
    then show "candidate k ent \<longrightarrow> settled_file cs k ns d u' (fst ent)"
      using got_body_grows settled_file_grows by blast
  qed simp_all
  moreover have "files w' = files w" using g by (simp add: grows_def)
  ultimately show ?thesis using rd assms(2) by (auto simp: settled_def)
qed

lemma restoreFuncs_settles:
  "restoreFuncs k file ns d cs w = (None, w') \<Longrightarrow> settled cs k ns d w'"
  by (cases "by_get k")
     (auto simp: restoreFuncs_by_get restoreFuncs_listed
        dest: import_got_settles import_listed_settles)


lemma settled_file_quiet:
  "settled_file cs k ns d w f \<Longrightarrow> quiet w w' \<Longrightarrow> settled_file cs k ns d w' f"
  using settled_file_grows quiet_grows by blast

lemma restore_listed_noop:
  assumes "settled_file cs k ns d w f" and "live_names k ns w \<subseteq> set (map Name existing)"
    and "files u = files w"
  shows "restore_listed cs k (norm_pre k ns) ns d existing f u = (None, u)"
  using assms by (auto simp: settled_file_def restore_listed_def name_norm_pre)

lemma for_each_skip:
  "(\<And>x. x \<in> set xs \<Longrightarrow> body x w = (None, w)) \<Longrightarrow> for_each body xs w = (None, w)"
  by (induction xs) simp_all

lemma import_listed_quiet:
  assumes "settled cs k ns d w" and "\<not> by_get k"
  shows "\<exists>w'. import_listed k ns d cs w = (None, w') \<and> quiet w w'"
proof -
  let ?w1 = "record_call (ListCall k ns) w"
  have le: "list_err cs k ns = None"
    and sf: "\<forall>f\<in>set (Glob (files w) d (resourceType k @ ''-'') ''.json''). settled_file cs k ns d w f"
    using assms by (simp_all add: settled_def)
  have al: "api_List cs k ns w = (Inr (items k ns w), ?w1)"
    using le by (simp add: api_List_def)
  have fs: "files ?w1 = files w" by (simp add: record_call_def)
  have "for_each (restore_listed cs k (norm_pre k ns) ns d (items k ns w))
          (Glob (files ?w1) d (resourceType k @ ''-'') ''.json'') ?w1 = (None, ?w1)"
  proof (rule for_each_skip)
    fix f
    assume "f \<in> set (Glob (files ?w1) d (resourceType k @ ''-'') ''.json'')"
    then have "settled_file cs k ns d w f" using sf fs by simp
    then show "restore_listed cs k (norm_pre k ns) ns d (items k ns w) f ?w1 = (None, ?w1)"
      by (rule restore_listed_noop) (simp_all add: live_names_def fs)
  qed
  then have "import_listed k ns d cs w = (None, ?w1)"
    using al by (simp add: import_listed_def)
  moreover have "quiet w ?w1" by (rule quiet_record_call) simp
  ultimately show ?thesis by blast
qed

lemma restore_got_quiet:
  assumes "settled_file cs k ns d w f" and "by_get k"
  shows "\<exists>w'. restore_got cs k (norm_pre k ns) (norm_post k ns) ns d f w = (None, w') \<and> quiet w w'"
proof -
  obtain b x where rd: "ReadFile (files w) d f = Inr b" and um: "unmarshal k b = Some x"
    and ge: "get_err cs k ns (Name x) = None" and ln: "Name x \<in> live_names k ns w"
    using assms by (auto simp: settled_file_def)
  obtain y where "find (\<lambda>z. Name z = Name x) (items k ns w) = Some y"
    using ln by (cases "find (\<lambda>z. Name z = Name x) (items k ns w)")
                (auto simp: live_names_def find_None_iff)
  then have "api_Get cs k ns (Name x) w = (Inr y, record_call (GetCall k ns (Name x)) w)"
    using ge by (simp add: api_Get_def)
  then have "restore_got cs k (norm_pre k ns) (norm_post k ns) ns d f w
               = (None, record_call (GetCall k ns (Name x)) w)"
    using rd um by (simp add: restore_got_def name_norm_pre)
  moreover have "quiet w (record_call (GetCall k ns (Name x)) w)"
    by (rule quiet_record_call) simp
  ultimately show ?thesis by blast
qed

lemma import_got_quiet:
  assumes "settled cs k ns d w" and "by_get k"
  shows "\<exists>w'. import_got k ns d cs w = (None, w') \<and> quiet w w'"
proof -
  obtain ents where rd: "ReadDir (files w) d = Inr ents"
    and sf: "\<forall>ent\<in>set ents. candidate k ent \<longrightarrow> settled_file cs k ns d w (fst ent)"
    using assms by (auto simp: settled_def)
  have "\<exists>w'. for_each (got_body k ns d cs) ents w = (None, w') \<and> quiet w w'"
  proof (rule for_each_quiet)
    fix ent u
    assume e: "ent \<in> set ents" and q: "quiet w u"
    show "\<exists>u'. got_body k ns d cs ent u = (None, u') \<and> quiet u u'"
    proof (cases "candidate k ent")
      case True
      then have "settled_file cs k ns d u (fst ent)"
        using sf e q settled_file_quiet by blast
      then show ?thesis using True assms(2) restore_got_quiet by (simp add: got_body_def)
    next
      case False
      then show ?thesis by (simp add: got_body_def quiet_refl)
    qed
  qed
  then show ?thesis using rd by (simp add: import_got_def)
qed

lemma restoreFuncs_quiet:
  "settled cs k ns d w \<Longrightarrow> \<exists>w'. restoreFuncs k file ns d cs w = (None, w') \<and> quiet w w'"
  by (cases "by_get k")
     (simp_all add: restoreFuncs_by_get restoreFuncs_listed import_got_quiet import_listed_quiet)

lemma restore_files_settles:
  assumes "for_each (\<lambda>file. restoreFuncs k file ns d cs) fl w = (None, w')" and "fl \<noteq> []"
  shows "settled cs k ns d w'"
proof -
  have "\<forall>file\<in>set fl. settled cs k ns d w'"
  proof (rule for_each_post[OF assms(1), where I = "\<lambda>u. True"])
    fix fn u u'
    assume "restoreFuncs k fn ns d cs u = (None, u')"
    then show "settled cs k ns d u'" by (rule restoreFuncs_settles)
  next
    fix fn u r u'
    assume "settled cs k ns d u" and "restoreFuncs k fn ns d cs u = (r, u')"
    then show "settled cs k ns d u'" using restoreFuncs_grows settled_grows by blast
  qed simp_all
  then show ?thesis using assms(2) by (cases fl) auto
qed

lemma restore_kind_done:
  assumes "for_each (\<lambda>file. restoreFuncs k file ns d cs)
             (Glob (files w) d (resourceType k @ ''-'') ''.json'') w = (None, w')"
  shows "kind_done cs k ns d w'"
proof -
  have "files w' = files w" using restore_files_grows[OF assms] by (simp add: grows_def)
  then show ?thesis using restore_files_settles[OF assms] by (auto simp: kind_done_def)
qed

lemma restore_kind_grows:
  "for_each (\<lambda>file. restoreFuncs k file ns d cs)
     (Glob (files w) d (resourceType k @ ''-'') ''.json'') w = (r, w') \<Longrightarrow> grows w w'"
  by (rule restore_files_grows)

lemma restoreResources_done:
  assumes "restoreResources order d ns cs w = (None, w')"
  shows "\<forall>k\<in>set order. kind_done cs k ns d w'"
proof (rule for_each_post[OF assms[unfolded restoreResources_def], where I = "\<lambda>u. True"])
  fix k u u'
  assume "for_each (\<lambda>file. restoreFuncs k file ns d cs)
            (Glob (files u) d (resourceType k @ ''-'') ''.json'') u = (None, u')"
  then show "kind_done cs k ns d u'" by (rule restore_kind_done)
next
  fix k j u r u'
  assume "kind_done cs k ns d u"
    and "for_each (\<lambda>file. restoreFuncs j file ns d cs)
            (Glob (files u) d (resourceType j @ ''-'') ''.json'') u = (r, u')"
  then show "kind_done cs k ns d u'" using restore_files_grows kind_done_grows by blast
qed simp_all

lemma restore_kind_quiet:
  assumes "kind_done cs k ns d w"
  shows "\<exists>w'. for_each (\<lambda>file. restoreFuncs k file ns d cs)
                (Glob (files w) d (resourceType k @ ''-'') ''.json'') w = (None, w') \<and> quiet w w'"
proof (cases "Glob (files w) d (resourceType k @ ''-'') ''.json'' = []")
  case True
  then show ?thesis by (simp add: quiet_refl)
next
  case False
  then have s: "settled cs k ns d w" using assms by (simp add: kind_done_def)
  show ?thesis
  proof (rule for_each_quiet)
    fix fn u
    assume "quiet w u"
    then have "settled cs k ns d u" using s settled_grows quiet_grows by blast
    then show "\<exists>u'. restoreFuncs k fn ns d cs u = (None, u') \<and> quiet u u'"
      by (rule restoreFuncs_quiet)
  qed
qed

lemma restoreResources_quiet:
  assumes "\<forall>k\<in>set order. kind_done cs k ns d w"
  shows "\<exists>w'. restoreResources order d ns cs w = (None, w') \<and> quiet w w'"
  unfolding restoreResources_def
proof (rule for_each_quiet)
  fix k u
  assume "k \<in> set order" and "quiet w u"
  then have "kind_done cs k ns d u" using assms kind_done_grows quiet_grows by blast
  then show "\<exists>u'. for_each (\<lambda>file. restoreFuncs k file ns d cs)
                (Glob (files u) d (resourceType k @ ''-'') ''.json'') u = (None, u') \<and> quiet u u'"
    by (rule restore_kind_quiet)
qed

lemma restore_twice:
  assumes "restoreResources order1 d ns cs w = (None, w1)" and "set order2 \<subseteq> set order1"
  shows "\<exists>w2. restoreResources order2 d ns cs w1 = (None, w2) \<and> quiet w1 w2"
  using restoreResources_done[OF assms(1)] assms(2) by (intro restoreResources_quiet) blast

subsection \<open>Every added object comes from a create call\<close>

lemma added_self: "added w w = []"
  by (simp add: added_def)

lemma added_trans:
  "prefix (live a) (live b) \<Longrightarrow> prefix (live b) (live c) \<Longrightarrow> added a c = added a b @ added b c"
  by (auto simp: added_def prefix_def)

lemma live_added: "prefix (live w) (live w') \<Longrightarrow> live w' = live w @ added w w'"
  by (auto simp: added_def prefix_def)

lemma accounted_refl: "accounted w w"
  by (simp add: accounted_def grows_refl added_self)

lemma accounted_trans:
  assumes "accounted a b" and "accounted b c"
  shows "accounted a c"
proof -
  have g: "grows a b" "grows b c" using assms by (simp_all add: accounted_def)
  then have "issued a c = issued a b @ issued b c" "added a c = added a b @ added b c"
    by (simp_all add: grows_def issued_trans added_trans)
  then show ?thesis using assms g grows_trans[of a b c] by (auto simp: accounted_def)
qed

lemma accounted_record_call: "accounted w (record_call c w)"
  by (simp add: accounted_def grows_record_call) (simp add: added_def record_call_def)

lemma api_List_accounted: "api_List cs k ns w = (r, w') \<Longrightarrow> accounted w w'"
  using api_List_world[of cs k ns w] by (auto simp: accounted_record_call)

lemma api_Get_accounted: "api_Get cs k ns n w = (r, w') \<Longrightarrow> accounted w w'"
  using api_Get_world[of cs k ns n w] by (auto simp: accounted_record_call)

lemma api_Create_accounted:
  assumes "api_Create cs k ns x w = (r, w')"
  shows "accounted w w'"
proof -
  have "set (added w w') \<subseteq> {(k, ns, x)}"
    using api_Create_cases[OF assms]
    by (auto simp: added_def record_call_def split: sum.splits)
  then show ?thesis
    using api_Create_grows[OF assms] api_Create_issued[OF assms] by (simp add: accounted_def)
qed

lemma restore_listed_accounted:
  "restore_listed cs k norm ns d existing f w = (r, w') \<Longrightarrow> accounted w w'"
  by (auto simp: restore_listed_def accounted_refl
      split: sum.splits option.splits if_splits prod.splits dest: api_Create_accounted)

lemma restore_got_accounted:
  "restore_got cs k pre post ns d f w = (r, w') \<Longrightarrow> accounted w w'"
  by (auto simp: restore_got_def accounted_refl
      split: sum.splits option.splits prod.splits if_splits
      dest!: api_Create_accounted api_Get_accounted elim: accounted_trans)

lemma restoreFuncs_accounted:
  assumes "restoreFuncs k file ns d cs w = (r, w')"
  shows "accounted w w'"
proof (cases "by_get k")
  case True
  then have ig: "import_got k ns d cs w = (r, w')" using assms by (simp add: restoreFuncs_by_get)
  show ?thesis
  proof (cases "ReadDir (files w) d")
    case (Inl e)
    then show ?thesis using ig by (simp add: import_got_def accounted_refl)
  next
    case (Inr ents)
    then have "for_each (got_body k ns d cs) ents w = (r, w')"
      using ig by (simp add: import_got_def)
    then show ?thesis
      by (rule for_each_rel)
         (auto simp: got_body_def split: if_splits
            intro: accounted_refl dest: restore_got_accounted elim: accounted_trans)
  qed
next
  case False
  then have il: "import_listed k ns d cs w = (r, w')" using assms by (simp add: restoreFuncs_listed)
  obtain res w1 where al: "api_List cs k ns w = (res, w1)" by (cases "api_List cs k ns w")
  have g: "accounted w w1" using al by (rule api_List_accounted)
  show ?thesis
  proof (cases res)
    case (Inl e)
    then show ?thesis using il al g by (simp add: import_listed_def)
  next
    case (Inr existing)
    then have "for_each (restore_listed cs k (norm_pre k ns) ns d existing)
                 (Glob (files w1) d (resourceType k @ ''-'') ''.json'') w1 = (r, w')"
      using il al by (simp add: import_listed_def)
    then have "accounted w1 w'"
      by (rule for_each_rel)
         (auto intro: restore_listed_accounted accounted_refl elim: accounted_trans)
    then show ?thesis using g accounted_trans by blast
  qed
qed

lemma restoreResources_accounted:
  assumes "restoreResources order d ns cs w = (r, w')"
  shows "accounted w w'"
  using assms unfolding restoreResources_def
proof (rule for_each_rel)
  fix k u r' u'
  assume "for_each (\<lambda>file. restoreFuncs k file ns d cs)
            (Glob (files u) d (resourceType k @ ''-'') ''.json'') u = (r', u')"
  then show "accounted u u'"
    by (rule for_each_rel)
       (auto intro: restoreFuncs_accounted accounted_refl elim: accounted_trans)
qed (auto intro: accounted_refl elim: accounted_trans)

subsection \<open>The exporters only read the cluster\<close>

lemma reads_only_refl: "reads_only w w"
  by (simp add: reads_only_def issued_self)

lemma reads_only_trans:
  assumes "reads_only a b" and "reads_only b c"
  shows "reads_only a c"
proof -
  have p: "prefix (calls a) (calls b)" "prefix (calls b) (calls c)"
    using assms by (simp_all add: reads_only_def)
  have "issued a c = issued a b @ issued b c" using p by (rule issued_trans)
  moreover have "prefix (calls a) (calls c)" using p by (rule prefix_order.trans)
  ultimately show ?thesis using assms by (simp add: reads_only_def)
qed

lemma write_object_reads_only: "write_object k d f x w = (r, w') \<Longrightarrow> reads_only w w'"
  by (auto simp: write_object_def reads_only_def issued_def split: sum.splits)

lemma write_unless_present_reads_only:
  "write_unless_present k d f x w = (r, w') \<Longrightarrow> reads_only w w'"
  by (auto simp: write_unless_present_def reads_only_refl split: if_splits
      dest: write_object_reads_only)

lemma api_List_reads_only: "api_List cs k ns w = (r, w') \<Longrightarrow> reads_only w w'"
  using api_List_world[of cs k ns w]
  by (auto simp: reads_only_def issued_record_call) (simp_all add: record_call_def)

lemma export_reads_only:
  assumes "(case api_List cs k ns w of
              (Inl e, w1) \<Rightarrow> (Some e, w1)
            | (Inr xs, w1) \<Rightarrow> for_each body xs w1) = (r, w')"
    and "\<And>x u r u'. body x u = (r, u') \<Longrightarrow> reads_only u u'"
  shows "reads_only w w'"
proof -
  obtain res w1 where al: "api_List cs k ns w = (res, w1)" by (cases "api_List cs k ns w")
  have g: "reads_only w w1" using al by (rule api_List_reads_only)
  show ?thesis
  proof (cases res)
    case (Inl e)
    then show ?thesis using assms(1) al g by simp
  next
    case (Inr xs)
    then have "for_each body xs w1 = (r, w')" using assms(1) al by simp
    then have "reads_only w1 w'"
      by (rule for_each_rel) (auto intro: assms(2) reads_only_refl elim: reads_only_trans)
    then show ?thesis using g reads_only_trans by blast
  qed
qed

lemma backupFunc_reads_only:
  assumes "backupFunc k cs ns d w = (r, w')"
  shows "reads_only w w'"
proof (cases k)
  case PVC
  show ?thesis using assms unfolding PVC backupFunc.simps BackupPVCs_def
    by (rule export_reads_only) (erule write_object_reads_only)
next
  case Pod
  show ?thesis using assms unfolding Pod backupFunc.simps BackupPods_def
    by (rule export_reads_only) (erule write_object_reads_only)
next
  case ReplicaSet
  show ?thesis using assms unfolding ReplicaSet backupFunc.simps BackupReplicaSets_def
    by (rule export_reads_only) (erule write_object_reads_only)
next
  case Deployment
  show ?thesis using assms unfolding Deployment backupFunc.simps BackupDeployments_def
    by (rule export_reads_only) (erule write_object_reads_only)
next
  case ConfigMap
  show ?thesis using assms unfolding ConfigMap backupFunc.simps BackupConfigMaps_def
  proof (rule export_reads_only)
    fix x u r' u'
    assume "(if Name x = ''kube-root-ca.crt'' then (None, u)
             else write_unless_present ConfigMap d (''configmap-'' @ Name x @ ''.json'') x u)
            = (r', u')"
    then show "reads_only u u'"
      by (auto simp: reads_only_refl split: if_splits dest: write_unless_present_reads_only)
  qed
next
  case Service
  show ?thesis using assms unfolding Service backupFunc.simps BackupServices_def
    by (rule export_reads_only) (erule write_unless_present_reads_only)
next
  case StatefulSet
  show ?thesis using assms unfolding StatefulSet backupFunc.simps BackupStatefulSet_def
    by (rule export_reads_only) (erule write_unless_present_reads_only)
next
  case ServiceAccount
  show ?thesis using assms unfolding ServiceAccount backupFunc.simps BackupServiceAccounts_def
    by (rule export_reads_only) (erule write_object_reads_only)
next
  case Secret
  show ?thesis using assms unfolding Secret backupFunc.simps BackupSecrets_def
    by (rule export_reads_only) (erule write_object_reads_only)
qed

lemma performBackup_reads_only:
  "performBackup cs ns d w = (r, w') \<Longrightarrow> reads_only w w'"
  unfolding performBackup_def
  by (erule for_each_rel)
     (auto intro: backupFunc_reads_only reads_only_refl elim: reads_only_trans)

subsection \<open>What the importers hand to the create call\<close>

lemma import_norm_target:
  "k \<noteq> ConfigMap \<Longrightarrow>
   Namespace (import_norm k ns x) = ns \<and> ResourceVersion (import_norm k ns x) = []"
  by (cases k) (simp_all add: import_norm_def set_target_def set_target_service_def)


lemma importers_set_target:
  assumes "restoreFuncs k file ns d cs w = (r, w')" and "k \<noteq> ConfigMap"
    and "CreateCall k' ns' y \<in> set (issued w w')"
  shows "Namespace y = ns \<and> ResourceVersion y = []"
  using emits_create[OF restoreFuncs_emits[OF assms(1)] assms(3)] import_norm_target[OF assms(2)]
  by auto

section \<open>The claims\<close>

subsection \<open>C3: a second restore\<close>

text \<open>
  C3 says that for every backup directory and target namespace a second run of the
  restore orchestration leaves the live objects as the first run left them, attempts no
  create and returns success. A run ends at its first error, so a first run that fails
  has restored only the kinds it met before the failure; the second run, meeting the
  keys of the map in another order, restores other kinds before it fails at the same
  place. Here the cluster refuses the pod: the first run meets the pod first and creates
  nothing, the second meets the secret first and creates it, and neither returns success.
\<close>

theorem restore_twice_counterexample:
  "fst (restoreResources order_a ''b2'' ''demo'' rejecting_pods backup_b2)
     = Some (ApiError ''rejected'')
   \<and> live (snd (restoreResources order_a ''b2'' ''demo'' rejecting_pods backup_b2)) = []
   \<and> fst (restoreResources order_b ''b2'' ''demo'' rejecting_pods
            (snd (restoreResources order_a ''b2'' ''demo'' rejecting_pods backup_b2)))
     = Some (ApiError ''rejected'')
   \<and> live (snd (restoreResources order_b ''b2'' ''demo'' rejecting_pods
            (snd (restoreResources order_a ''b2'' ''demo'' rejecting_pods backup_b2))))
     = [(Secret, ''demo'', secret_s1\<lparr>Namespace := ''demo'', ResourceVersion := []\<rparr>)]"
  by code_simp

text \<open>
  C3 as amended: when a run of the restore orchestration has returned success, a second
  run over the same directory into the same namespace, meeting the keys in any order,
  returns success, issues no create call and leaves the live objects as they were.
\<close>

theorem restore_twice_quiet:
  assumes "restoreResources order1 backupDir namespace cs w = (None, w1)"
    and "set order2 \<subseteq> set order1"
  shows "fst (restoreResources order2 backupDir namespace cs w1) = None
     \<and> live (snd (restoreResources order2 backupDir namespace cs w1)) = live w1
     \<and> filter is_create (issued w1 (snd (restoreResources order2 backupDir namespace cs w1))) = []"
proof -
  obtain w2 where "restoreResources order2 backupDir namespace cs w1 = (None, w2)"
    and "quiet w1 w2"
    using restore_twice[OF assms] by blast
  then show ?thesis by (simp add: quiet_def)
qed

theorem restore_twice_quiet_witness:
  "fst (restoreResources order_a ''b1'' ''demo'' no_faults backup_b1) = None
   \<and> set order_b \<subseteq> set order_a
   \<and> fst (restoreResources order_b ''b1'' ''demo'' no_faults
            (snd (restoreResources order_a ''b1'' ''demo'' no_faults backup_b1))) = None
   \<and> live (snd (restoreResources order_b ''b1'' ''demo'' no_faults
            (snd (restoreResources order_a ''b1'' ''demo'' no_faults backup_b1))))
     = live (snd (restoreResources order_a ''b1'' ''demo'' no_faults backup_b1))
   \<and> filter is_create
        (issued (snd (restoreResources order_a ''b1'' ''demo'' no_faults backup_b1))
           (snd (restoreResources order_b ''b1'' ''demo'' no_faults
              (snd (restoreResources order_a ''b1'' ''demo'' no_faults backup_b1))))) = []"
proof -
  have h1: "fst (restoreResources order_a ''b1'' ''demo'' no_faults backup_b1) = None"
    by code_simp
  have h2: "set order_b \<subseteq> set order_a"
    by code_simp
  have run: "restoreResources order_a ''b1'' ''demo'' no_faults backup_b1
               = (None, snd (restoreResources order_a ''b1'' ''demo'' no_faults backup_b1))"
    using h1 by (simp add: prod_eq_iff)
  show ?thesis using restore_twice_quiet[OF run h2] h1 h2 by simp
qed

subsection \<open>C1: the namespace of an imported object\<close>

text \<open>
  C1 says that every importer sets the namespace of the object to the target namespace
  before the create call. Eight importers do (lemma \<open>importers_set_target\<close>); the
  config-map importer has no such assignment. Restoring a config-map file that records
  the namespace \<open>prod\<close> into \<open>demo\<close> hands the create call an object whose
  namespace is \<open>prod\<close>, and restoring a file written by the config-map exporter,
  which clears the field, hands it an object whose namespace is empty.
\<close>

theorem configmap_namespace_kept:
  "fst (restoreConfigMap ''configmap-settings.json'' ''demo'' ''b3'' no_faults backup_b3) = None
   \<and> map Namespace
        (created (calls (snd (restoreConfigMap ''configmap-settings.json'' ''demo'' ''b3''
                               no_faults backup_b3)))) = [''prod'']
   \<and> map Namespace
        (created (calls (snd (restoreConfigMap ''configmap-app-config.json'' ''demo'' ''b1''
                               no_faults backup_b1)))) = [[]]"
  by code_simp

subsection \<open>C2: the resource version of an imported object\<close>

text \<open>
  C2 says that every importer clears the resource version before the create call. The
  config-map importer does not: a config-map file that records the resource version
  \<open>41\<close> reaches the create call with it. Such a file is also what the exporters
  leave for a persistent-volume-claim named \<open>configmap-data\<close>, which is written to
  \<open>configmap-data.json\<close> with its fields as they are.
\<close>

theorem configmap_revision_kept:
  "fst (restoreConfigMap ''configmap-settings.json'' ''demo'' ''b3'' no_faults backup_b3) = None
   \<and> map ResourceVersion
        (created (calls (snd (restoreConfigMap ''configmap-settings.json'' ''demo'' ''b3''
                               no_faults backup_b3)))) = [''41'']
   \<and> map ResourceVersion
        (created (calls (snd (restoreConfigMap ''configmap-configmap-data.json'' ''demo'' ''b8''
                               no_faults (snd (performBackup no_faults ''prod'' ''b8'' cluster_c1))))))
       = [''52'']"
  by code_simp

subsection \<open>C5: the addresses of an imported service\<close>



subsection \<open>C9: the cluster is only added to\<close>

text \<open>
  C9: the calls issued on the cluster are list, get and create. An exporter, and the
  whole backup, leaves the live objects as they are and issues no create; an importer,
  and the whole restore, keeps every live object that was there, in place and unchanged,
  and every object it adds is the object of a create call it issued.
\<close>

theorem only_create_mutates:
  "live (snd (backupFunc k cs namespace backupDir w)) = live w
   \<and> filter is_create (issued w (snd (backupFunc k cs namespace backupDir w))) = []
   \<and> live (snd (performBackup cs namespace backupDir w)) = live w
   \<and> filter is_create (issued w (snd (performBackup cs namespace backupDir w))) = []
   \<and> prefix (live w) (live (snd (restoreFuncs k file namespace backupDir cs w)))
   \<and> set (added w (snd (restoreFuncs k file namespace backupDir cs w)))
       \<subseteq> set (concat (map adds (issued w (snd (restoreFuncs k file namespace backupDir cs w)))))
   \<and> prefix (live w) (live (snd (restoreResources order backupDir namespace cs w)))
   \<and> set (added w (snd (restoreResources order backupDir namespace cs w)))
       \<subseteq> set (concat (map adds
             (issued w (snd (restoreResources order backupDir namespace cs w)))))"
proof -
  have b: "reads_only w (snd (backupFunc k cs namespace backupDir w))"
    by (rule backupFunc_reads_only[of k cs namespace backupDir w
          "fst (backupFunc k cs namespace backupDir w)"]) simp
  have p: "reads_only w (snd (performBackup cs namespace backupDir w))"
    by (rule performBackup_reads_only[of cs namespace backupDir w
          "fst (performBackup cs namespace backupDir w)"]) simp
  have f: "accounted w (snd (restoreFuncs k file namespace backupDir cs w))"
    by (rule restoreFuncs_accounted[of k _ namespace backupDir cs w
          "fst (restoreFuncs k file namespace backupDir cs w)"]) simp
  have r: "accounted w (snd (restoreResources order backupDir namespace cs w))"
    by (rule restoreResources_accounted[of order backupDir namespace cs w
          "fst (restoreResources order backupDir namespace cs w)"]) simp
  show ?thesis using b p f r by (simp add: reads_only_def accounted_def grows_def)
qed

end
